theory Spec2Isabelle
  imports Main
begin

section \<open>codecount: the line classifier and the language table\<close>

text \<open>
  A shallow embedding of \<^verbatim>\<open>codecount.go\<close>. Go strings are byte sequences, so a Go
  \<^verbatim>\<open>string\<close> is a HOL \<open>string\<close> (a list of 8-bit characters) and every index is a
  byte index. The counters of a \<^verbatim>\<open>File\<close> are Go \<^verbatim>\<open>int\<close>s that are incremented once
  per line read; they are modelled as \<open>int\<close>, which is exact for every file of fewer than
  \<open>2^31\<close> lines (\<open>2^63\<close> on a 64-bit build). The debug printing under \<^verbatim>\<open>ARG_DEBUG\<close> writes to standard output
  only and is left out.
\<close>

subsection \<open>The functions of package strings and filepath that the scanner calls\<close>

text \<open>\<^verbatim>\<open>strings.HasPrefix(s, prefix)\<close>: \<^verbatim>\<open>len(s) >= len(prefix) && s[:len(prefix)] == prefix\<close>.\<close>

definition HasPrefix :: "string \<Rightarrow> string \<Rightarrow> bool" where
  "HasPrefix s prefix = (take (length prefix) s = prefix)"

text \<open>\<^verbatim>\<open>strings.HasSuffix(s, suffix)\<close>, used here to look at the end of a string being trimmed.\<close>

definition HasSuffix :: "string \<Rightarrow> string \<Rightarrow> bool" where
  "HasSuffix s suffix = (drop (length s - length suffix) s = suffix)"

text \<open>
  \<^verbatim>\<open>strings.LastIndex(s, substr)\<close>: the byte index of the last instance of \<open>substr\<close> in
  \<open>s\<close>, or \<open>-1\<close> when there is none; it is \<^verbatim>\<open>len(s)\<close> for the empty \<open>substr\<close>. The helper
  walks the string from the left with the current index \<open>i\<close> and remembers in \<open>latest\<close> the
  latest index at which \<open>substr\<close> starts.
\<close>

fun lastIndexFrom :: "string \<Rightarrow> string \<Rightarrow> int \<Rightarrow> int \<Rightarrow> int" where
  "lastIndexFrom [] substr i latest = (if substr = [] then i else latest)"
| "lastIndexFrom (c # cs) substr i latest =
     lastIndexFrom cs substr (i + 1) (if HasPrefix (c # cs) substr then i else latest)"

definition LastIndex :: "string \<Rightarrow> string \<Rightarrow> int" where
  "LastIndex s substr = lastIndexFrom s substr 0 (- 1)"

text \<open>
  \<^verbatim>\<open>strings.TrimSpace(s)\<close> removes every leading and every trailing white-space rune, as
  \<^verbatim>\<open>unicode.IsSpace\<close> defines it. A rune is white space exactly when its UTF-8 encoding
  is one of \<open>spaceRunes\<close>: the six ASCII characters tab, line feed, vertical tab, form feed,
  carriage return and space, then U+0085, U+00A0, U+1680, U+2000 to U+200A, U+2028,
  U+2029, U+202F, U+205F and U+3000. A byte that does not start a valid encoding decodes
  to the one-byte \<^verbatim>\<open>RuneError\<close>, which is not white space, so trimming stops there.
  The encodings are unique, so a string starts (ends) with a white-space rune exactly when
  it starts (ends) with one of these byte sequences.
\<close>

definition spaceRunes :: "string list" where
  "spaceRunes =
    [[CHR 0x09], [CHR 0x0A], [CHR 0x0B], [CHR 0x0C], [CHR 0x0D], [CHR 0x20],
     [CHR 0xC2, CHR 0x85], [CHR 0xC2, CHR 0xA0],
     [CHR 0xE1, CHR 0x9A, CHR 0x80],
     [CHR 0xE2, CHR 0x80, CHR 0x80], [CHR 0xE2, CHR 0x80, CHR 0x81],
     [CHR 0xE2, CHR 0x80, CHR 0x82], [CHR 0xE2, CHR 0x80, CHR 0x83],
     [CHR 0xE2, CHR 0x80, CHR 0x84], [CHR 0xE2, CHR 0x80, CHR 0x85],
     [CHR 0xE2, CHR 0x80, CHR 0x86], [CHR 0xE2, CHR 0x80, CHR 0x87],
     [CHR 0xE2, CHR 0x80, CHR 0x88], [CHR 0xE2, CHR 0x80, CHR 0x89],
     [CHR 0xE2, CHR 0x80, CHR 0x8A],
     [CHR 0xE2, CHR 0x80, CHR 0xA8], [CHR 0xE2, CHR 0x80, CHR 0xA9],
     [CHR 0xE2, CHR 0x80, CHR 0xAF],
     [CHR 0xE2, CHR 0x81, CHR 0x9F],
     [CHR 0xE3, CHR 0x80, CHR 0x80]]"

text \<open>The width in bytes of the white-space rune at the start (the end) of \<open>s\<close>, 0 if none.\<close>

definition leadingSpace :: "string \<Rightarrow> nat" where
  "leadingSpace s = (case find (HasPrefix s) spaceRunes of None \<Rightarrow> 0 | Some w \<Rightarrow> length w)"

definition trailingSpace :: "string \<Rightarrow> nat" where
  "trailingSpace s = (case find (HasSuffix s) spaceRunes of None \<Rightarrow> 0 | Some w \<Rightarrow> length w)"

function TrimLeftSpace :: "string \<Rightarrow> string" where
  "TrimLeftSpace s =
     (if leadingSpace s = 0 then s else TrimLeftSpace (drop (leadingSpace s) s))"
  by pat_completeness auto
termination
proof (relation "measure length")
  fix s :: string
  assume "leadingSpace s \<noteq> 0"
  then obtain w where w: "HasPrefix s w" "leadingSpace s = length w" "w \<noteq> []"
    by (auto simp: leadingSpace_def find_Some_iff split: option.splits)
  from w(1) have "length (take (length w) s) = length w"
    by (simp add: HasPrefix_def)
  then have "length w \<le> length s" by simp
  moreover from w(3) have "0 < length w" by simp
  ultimately have "length s - length w < length s" by arith
  with w(2) show "(drop (leadingSpace s) s, s) \<in> measure length" by simp
qed simp

function TrimRightSpace :: "string \<Rightarrow> string" where
  "TrimRightSpace s =
     (if trailingSpace s = 0 then s
      else TrimRightSpace (take (length s - trailingSpace s) s))"
  by pat_completeness auto
termination
proof (relation "measure length")
  fix s :: string
  assume "trailingSpace s \<noteq> 0"
  then obtain w where w: "HasSuffix s w" "trailingSpace s = length w" "w \<noteq> []"
    by (auto simp: trailingSpace_def find_Some_iff split: option.splits)
  from w(1) have "length (drop (length s - length w) s) = length w"
    by (simp add: HasSuffix_def)
  then have "length w \<le> length s" by simp
  moreover from w(3) have "0 < length w" by simp
  ultimately have "length s - length w < length s" by arith
  with w(2) show "(take (length s - trailingSpace s) s, s) \<in> measure length" by simp
qed simp

declare TrimLeftSpace.simps [simp del] TrimRightSpace.simps [simp del]

definition TrimSpace :: "string \<Rightarrow> string" where
  "TrimSpace s = TrimRightSpace (TrimLeftSpace s)"

text \<open>
  \<^verbatim>\<open>strings.ToLower(s)\<close>. On a string of ASCII bytes it adds \<^verbatim>\<open>'a' - 'A'\<close> to every
  byte between \<^verbatim>\<open>'A'\<close> and \<^verbatim>\<open>'Z'\<close>. On any other string it maps every rune through the
  Unicode case tables; that mapping is not part of this program and is the parameter
  \<open>unicodeLower\<close>.
\<close>

definition isASCII :: "char \<Rightarrow> bool" where
  "isASCII c = ((of_char c :: nat) < 128)"

definition lowerASCII :: "char \<Rightarrow> char" where
  "lowerASCII c =
     (if 65 \<le> (of_char c :: nat) \<and> (of_char c :: nat) \<le> 90
      then char_of ((of_char c :: nat) + 32) else c)"

definition ToLower :: "(string \<Rightarrow> string) \<Rightarrow> string \<Rightarrow> string" where
  "ToLower unicodeLower s =
     (if list_all isASCII s then map lowerASCII s else unicodeLower s)"

text \<open>
  \<^verbatim>\<open>filepath.Ext(path)\<close>, with the path separator \<^verbatim>\<open>/\<close> of a Unix build: the suffix that
  starts at the last dot of the last path element, empty when that element has no dot.
  As in the library, the path is read from its end; \<open>suffix\<close> holds the bytes passed.
\<close>

fun extFrom :: "string \<Rightarrow> string \<Rightarrow> string" where
  "extFrom [] suffix = []"
| "extFrom (c # cs) suffix =
     (if c = CHR ''/'' then []
      else if c = CHR ''.'' then c # suffix
      else extFrom cs (c # suffix))"

definition Ext :: "string \<Rightarrow> string" where
  "Ext p = extFrom (rev p) []"

subsection \<open>The data model\<close>

record Language =
  name :: string
  extension :: "string list"
  openblock :: string
  closeblock :: string
  comment :: string
  endmark :: string

text \<open>The methods of \<^verbatim>\<open>os.FileInfo\<close> that the program calls.\<close>

record FileInfo =
  Name :: string
  Size :: int
  IsDir :: bool

text \<open>
  \<^verbatim>\<open>info\<close> is an interface value and may be nil (\<open>None\<close>): the test driver stores the
  result of \<^verbatim>\<open>os.Stat\<close> without looking at its error.
\<close>

record File =
  path :: string
  info :: "FileInfo option"
  lang :: Language
  scanned :: bool
  lines :: int
  comments :: int
  blanks :: int
  code :: int

datatype state = NORMAL | BLOCK | END

text \<open>
  A panic is the left injection of the result. \<open>OpenError\<close> and \<open>ReadError\<close> are the errors
  of \<^verbatim>\<open>os.Open\<close> and of \<^verbatim>\<open>scanner.Err\<close>, \<open>NilPointer\<close> is a method call on a nil
  \<^verbatim>\<open>os.FileInfo\<close>.
\<close>

datatype error = OpenError string | ReadError string | NilPointer

text \<open>
  What \<^verbatim>\<open>bufio.Scanner\<close> delivers for one open file: one entry for every call of
  \<^verbatim>\<open>Scan\<close> that returns true, holding what \<^verbatim>\<open>Err\<close> and \<^verbatim>\<open>Text\<close> return after it. The
  file system maps a path to the error of \<^verbatim>\<open>os.Open\<close> or to that sequence.
\<close>

type_synonym scanner = "(error option \<times> string) list"

type_synonym filesystem = "string \<Rightarrow> error + scanner"

definition zeroLanguage :: Language where
  "zeroLanguage =
     \<lparr>name = [], extension = [], openblock = [], closeblock = [], comment = [], endmark = []\<rparr>"

text \<open>The composite literal \<^verbatim>\<open>File{path: path, info: info}\<close>.\<close>

definition newFile :: "string \<Rightarrow> FileInfo option \<Rightarrow> File" where
  "newFile p i =
     \<lparr>path = p, info = i, lang = zeroLanguage, scanned = False,
      lines = 0, comments = 0, blanks = 0, code = 0\<rparr>"

subsection \<open>The language table\<close>

definition mkLanguage ::
  "string \<Rightarrow> string list \<Rightarrow> string \<Rightarrow> string \<Rightarrow> string \<Rightarrow> string \<Rightarrow> Language" where
  "mkLanguage n es ob cb c e =
     \<lparr>name = n, extension = es, openblock = ob, closeblock = cb, comment = c, endmark = e\<rparr>"

definition languages :: "Language list" where
  "languages =
    [mkLanguage ''Assembly'' [''.s''] '''' '''' '';'' '''',
     mkLanguage ''Batch'' [''.bat''] '''' '''' ''REM'' '''',
     mkLanguage ''C'' [''.c''] ''/*'' ''*/'' ''//'' '''',
     mkLanguage ''C++'' [''.cpp''] ''/*'' ''*/'' ''//'' '''',
     mkLanguage ''C/C++ Header'' [''.h''] ''/*'' ''*/'' ''//'' '''',
     mkLanguage ''CSS'' [''.css''] ''/*'' ''*/'' '''' '''',
     mkLanguage ''C#'' [''.cs''] ''/*'' ''*/'' ''//'' '''',
     mkLanguage ''Go'' [''.go''] ''/*'' ''*/'' ''//'' '''',
     mkLanguage ''HTML'' [''.html'', ''.htm''] '''' '''' '''' '''',
     mkLanguage ''Java'' [''.java''] ''/*'' ''*/'' ''//'' '''',
     mkLanguage ''Javascript'' [''.js''] ''/*'' ''*/'' ''//'' '''',
     mkLanguage ''JSON'' [''.json''] '''' '''' '''' '''',
     mkLanguage ''Markdown'' [''.md''] '''' '''' '''' '''',
     mkLanguage ''Perl'' [''.pl''] ''/*'' ''*/'' ''//'' ''__END__'',
     mkLanguage ''PHP'' [''.php''] ''/*'' ''*/'' ''//'' ''__halt_compiler()'',
     mkLanguage ''Python'' [''.py'', ''.pyw''] '''' '''' ''#'' '''',
     mkLanguage ''RestructuredText'' [''.rst''] '''' '''' '''' '''',
     mkLanguage ''RPGLE'' [''.rpgle''] '''' '''' '''' '''',
     mkLanguage ''Ruby'' [''.rb''] ''/*'' ''*/'' ''#'' ''__END__'',
     mkLanguage ''Rust'' [''.rs''] ''/*'' ''*/'' ''//'' '''',
     mkLanguage ''SQL'' [''.sql''] ''/*'' ''*/'' '''' '''',
     mkLanguage ''TCL'' [''.tcl''] '''' '''' ''#'' '''',
     mkLanguage ''Text'' [''.txt''] '''' '''' '''' '''',
     mkLanguage ''VB'' [''.vb'', ''.mac'', ''.frm'', ''.frx'', ''.bas''] ''/*'' ''*/'' [CHR 0x27] '''',
     mkLanguage ''XML'' [''.xml'', ''.xss'', ''.xsc'', ''.xsd'', ''.xsx''] '''' '''' '''' '''']"

text \<open>
  The extension table is a Go map filled in the order of the list, so the rule declared
  last wins an extension claimed twice. Reading a key that is absent gives the zero
  \<^verbatim>\<open>Language\<close>; the two-value form also says whether the key was found.
\<close>

definition build_extensions :: "Language list \<Rightarrow> (string \<rightharpoonup> Language)" where
  "build_extensions langs =
     foldl (\<lambda>ext_set l. foldl (\<lambda>m ext. m(ext \<mapsto> l)) ext_set (extension l)) Map.empty langs"

definition extensions :: "string \<rightharpoonup> Language" where
  "extensions = build_extensions languages"

definition lookup :: "(string \<rightharpoonup> Language) \<Rightarrow> string \<Rightarrow> Language" where
  "lookup m k = (case m k of None \<Rightarrow> zeroLanguage | Some l \<Rightarrow> l)"

definition found :: "(string \<rightharpoonup> Language) \<Rightarrow> string \<Rightarrow> bool" where
  "found m k = (case m k of None \<Rightarrow> False | Some l \<Rightarrow> True)"

subsection \<open>The scanner\<close>

text \<open>
  The body of the loop of \<^verbatim>\<open>scan\<close> for one line that was read: the line is counted,
  trimmed, and classified from the state the previous line left. The result is the state
  and the record after the line.
\<close>

definition scan_line :: "state \<Rightarrow> File \<Rightarrow> string \<Rightarrow> state \<times> File" where
  "scan_line st file0 line_orig =
    (let file = file0\<lparr>lines := lines file0 + 1\<rparr>;
         line = TrimSpace line_orig
     in if line = [] then (st, file\<lparr>blanks := blanks file + 1\<rparr>)
        else case st of
          NORMAL \<Rightarrow>
            if HasPrefix line (comment (lang file)) \<and> comment (lang file) \<noteq> []
            then (NORMAL, file\<lparr>comments := comments file + 1\<rparr>)
            else if HasPrefix line (endmark (lang file)) \<and> endmark (lang file) \<noteq> []
            then (END, file\<lparr>comments := comments file + 1\<rparr>)
            else if openblock (lang file) \<noteq> [] \<and> closeblock (lang file) \<noteq> []
            then
              (let spos = LastIndex line (openblock (lang file));
                   epos = LastIndex line (closeblock (lang file))
               in if spos > epos \<and> spos > 1 then (BLOCK, file\<lparr>code := code file + 1\<rparr>)
                  else if spos > epos then (BLOCK, file\<lparr>comments := comments file + 1\<rparr>)
                  else if spos < epos \<and> spos > - 1
                  then (NORMAL, file\<lparr>comments := comments file + 1\<rparr>)
                  else (NORMAL, file\<lparr>code := code file + 1\<rparr>))
            else (NORMAL, file\<lparr>code := code file + 1\<rparr>)
        | BLOCK \<Rightarrow>
            (let spos = LastIndex line (openblock (lang file));
                 epos = LastIndex line (closeblock (lang file))
             in (if spos < epos \<and> epos \<noteq> - 1 then NORMAL else BLOCK,
                 file\<lparr>comments := comments file + 1\<rparr>))
        | END \<Rightarrow> (END, file\<lparr>comments := comments file + 1\<rparr>))"

text \<open>
  The loop \<^verbatim>\<open>for scanner.Scan() { ... }\<close>: it panics on the first entry whose \<^verbatim>\<open>Err\<close> is
  not nil and ends when \<^verbatim>\<open>Scan\<close> returns false.
\<close>

fun scan_loop :: "state \<Rightarrow> File \<Rightarrow> scanner \<Rightarrow> error + state \<times> File" where
  "scan_loop st file [] = Inr (st, file)"
| "scan_loop st file ((err, line_orig) # rest) =
     (case err of
        Some e \<Rightarrow> Inl e
      | None \<Rightarrow> (case scan_line st file line_orig of (st', file') \<Rightarrow> scan_loop st' file' rest))"

text \<open>
  \<^verbatim>\<open>func (file *File) scan()\<close>. The table \<open>exts\<close> is the global \<^verbatim>\<open>extensions\<close> of the
  program; it is a parameter here so that the theorems hold for every table.
\<close>

definition scan ::
  "(string \<rightharpoonup> Language) \<Rightarrow> (string \<Rightarrow> string) \<Rightarrow> filesystem \<Rightarrow> File \<Rightarrow> error + File" where
  "scan exts unicodeLower fs file0 =
    (let file = file0\<lparr>lang := lookup exts (ToLower unicodeLower (Ext (path file0)))\<rparr>
     in if name (lang file) = [] then Inr (file\<lparr>scanned := False\<rparr>)
        else case info file of
          None \<Rightarrow> Inl NilPointer
        | Some fi \<Rightarrow>
            if Size fi = 0 then Inr (file\<lparr>scanned := False\<rparr>)
            else case fs (path file) of
              Inl err \<Rightarrow> Inl err
            | Inr sc \<Rightarrow>
                (case scan_loop NORMAL file sc of
                   Inl err \<Rightarrow> Inl err
                 | Inr (st, file') \<Rightarrow> Inr (file'\<lparr>scanned := True\<rparr>)))"

subsection \<open>The walk over the files\<close>

text \<open>
  \<^verbatim>\<open>walkFunc\<close> returns nil or \<^verbatim>\<open>filepath.SkipDir\<close> and appends to the global \<^verbatim>\<open>files\<close>,
  which is passed in and returned. Its third argument is never read and is left out.
\<close>

datatype walk_result = Continue | SkipDir

definition walkFunc ::
  "(string \<rightharpoonup> Language) \<Rightarrow> (string \<Rightarrow> string) \<Rightarrow> filesystem \<Rightarrow> File list \<Rightarrow>
   string \<Rightarrow> FileInfo option \<Rightarrow> error + walk_result \<times> File list" where
  "walkFunc exts unicodeLower fs files p i =
    (case i of
       None \<Rightarrow> Inl NilPointer
     | Some fi \<Rightarrow>
         if IsDir fi then
           (if p = ''.'' then Inr (Continue, files)
            else if HasPrefix (Name fi) ''.'' then Inr (SkipDir, files)
            else if Name fi = ''__pycache__'' then Inr (SkipDir, files)
            else Inr (Continue, files))
         else if found exts (Ext p) then
           (case scan exts unicodeLower fs (newFile p i) of
              Inl err \<Rightarrow> Inl err
            | Inr file \<Rightarrow> Inr (Continue, files @ [file]))
         else Inr (Continue, files))"

text \<open>
  \<^verbatim>\<open>filepath.Walk(ROOT, walkFunc)\<close> over a directory tree whose entries could all be
  read: an entry is its path, its \<^verbatim>\<open>FileInfo\<close> and, for a directory, its entries in the
  order of the walk. The callback runs on every entry; the entries of a directory are
  visited unless the callback returned \<^verbatim>\<open>SkipDir\<close> for it. A panic of the callback is not
  recovered anywhere, so it ends the walk and the program.
\<close>

datatype entry = Entry string FileInfo "entry list"

fun Walk ::
  "(string \<rightharpoonup> Language) \<Rightarrow> (string \<Rightarrow> string) \<Rightarrow> filesystem \<Rightarrow> File list \<Rightarrow>
   entry \<Rightarrow> error + File list"
and Walk_entries ::
  "(string \<rightharpoonup> Language) \<Rightarrow> (string \<Rightarrow> string) \<Rightarrow> filesystem \<Rightarrow> File list \<Rightarrow>
   entry list \<Rightarrow> error + File list" where
  "Walk exts unicodeLower fs files (Entry p fi es) =
     (case walkFunc exts unicodeLower fs files p (Some fi) of
        Inl err \<Rightarrow> Inl err
      | Inr (r, files') \<Rightarrow>
          if IsDir fi then
            (if r = SkipDir then Inr files'
             else Walk_entries exts unicodeLower fs files' es)
          else Inr files')"
| "Walk_entries exts unicodeLower fs files [] = Inr files"
| "Walk_entries exts unicodeLower fs files (e # es) =
     (case Walk exts unicodeLower fs files e of
        Inl err \<Rightarrow> Inl err
      | Inr files' \<Rightarrow> Walk_entries exts unicodeLower fs files' es)"

text \<open>A line is blank when nothing is left of it after trimming.\<close>

definition nonblank :: "string \<Rightarrow> bool" where
  "nonblank l = (TrimSpace l \<noteq> [])"

text \<open>A scanner that delivers the given lines without any read error.\<close>

definition deliver :: "string list \<Rightarrow> scanner" where
  "deliver ls = map (Pair None) ls"

text \<open>The invariant of a record: the three kinds of line add up to the lines read.\<close>

definition counts_add_up :: "File \<Rightarrow> bool" where
  "counts_add_up f = (lines f = code f + comments f + blanks f)"

subsection \<open>Example inputs\<close>

text \<open>Fresh records of a Go and of a Perl file, with the rule of the shipped table.\<close>

definition goFile :: File where
  "goFile = (newFile ''main.go'' None)\<lparr>lang := lookup extensions ''.go''\<rparr>"

definition perlFile :: File where
  "perlFile = (newFile ''tool.pl'' None)\<lparr>lang := lookup extensions ''.pl''\<rparr>"

definition regular :: "string \<Rightarrow> int \<Rightarrow> FileInfo" where
  "regular n sz = \<lparr>Name = n, Size = sz, IsDir = False\<rparr>"

text \<open>A file system in which every path opens and delivers the same lines.\<close>

definition everyFile :: "string list \<Rightarrow> filesystem" where
  "everyFile ls p = Inr (deliver ls)"

text \<open>A file system in which no path can be opened.\<close>

definition noFile :: filesystem where
  "noFile p = Inl (OpenError p)"

text \<open>A file system in which exactly the path \<open>bad\<close> cannot be opened.\<close>

definition allBut :: "string \<Rightarrow> string list \<Rightarrow> filesystem" where
  "allBut bad ls p = (if p = bad then Inl (OpenError p) else Inr (deliver ls))"

text \<open>A file system in which every file delivers one line and then a line with a read error.\<close>

definition brokenRead :: filesystem where
  "brokenRead p = Inr (deliver [''package a''] @ (Some (ReadError p), ''func'') # [])"

text \<open>The 27 lines of the fixture \<^verbatim>\<open>test_files/php.php\<close> of the repository.\<close>

definition phpFixture :: "string list" where
  "phpFixture =
    [''<?php'',
     ''class Mhistory extends CI_Model {'',
     '''',
     ''    /*'',
     ''    *  Add a history record for sending the email'',
     ''    *'',
     ''    */'',
     ''    function create($ruleid, $jsondata)'',
     ''    {'',
     ''        $storedproc = '' @ [CHR 0x22],
     ''            /* Notifier History create SQL */'',
     ''            INSERT INTO ALPHA.R50ALL.CI_HISTORY'',
     ''            (RULEID, JSONDATA)'',
     ''            VALUES(?, ?)'' @ [CHR 0x22] @ '';'',
     '''',
     ''        $stmt = $this->db->query('',
     ''            $storedproc,'',
     ''            array('',
     ''                $ruleid,'',
     ''                str_replace('' @ [CHR 0x22, CHR 0x27, CHR 0x22] @ '', '' @
       [CHR 0x22, CHR 0x27, CHR 0x27, CHR 0x22] @ '', $jsondata)'',
     ''            )'',
     ''        );'',
     ''        return $stmt;'',
     '''',
     [CHR 0x09] @ ''}'',
     ''}'',
     ''# Blank = 3, Comment = 5,  Code = 19, Total = 27'']"

section \<open>Properties\<close>

subsection \<open>What \<open>LastIndex\<close> computes\<close>

lemma lastIndexFrom_spec:
  "if \<exists>j\<le>length s. HasPrefix (drop j s) sub
   then \<exists>j\<le>length s. lastIndexFrom s sub i latest = i + int j \<and> HasPrefix (drop j s) sub \<and>
          (\<forall>k. j < k \<and> k \<le> length s \<longrightarrow> \<not> HasPrefix (drop k s) sub)
   else lastIndexFrom s sub i latest = latest"
proof (induction s arbitrary: i latest)
  case Nil
  show ?case by (auto simp: HasPrefix_def)
next
  case (Cons c cs)
  let ?latest' = "if HasPrefix (c # cs) sub then i else latest"
  have step: "lastIndexFrom (c # cs) sub i latest = lastIndexFrom cs sub (i + 1) ?latest'"
    by simp
  have split: "(\<exists>j\<le>length (c # cs). HasPrefix (drop j (c # cs)) sub) \<longleftrightarrow>
      HasPrefix (c # cs) sub \<or> (\<exists>j\<le>length cs. HasPrefix (drop j cs) sub)"
  proof
    assume "\<exists>j\<le>length (c # cs). HasPrefix (drop j (c # cs)) sub"
    then obtain j where j: "j \<le> length (c # cs)" "HasPrefix (drop j (c # cs)) sub" by blast
    show "HasPrefix (c # cs) sub \<or> (\<exists>j\<le>length cs. HasPrefix (drop j cs) sub)"
    proof (cases j)
      case 0
      with j show ?thesis by simp
    next
      case (Suc j')
      with j have "j' \<le> length cs \<and> HasPrefix (drop j' cs) sub" by simp
      then show ?thesis by blast
    qed
  next
    assume "HasPrefix (c # cs) sub \<or> (\<exists>j\<le>length cs. HasPrefix (drop j cs) sub)"
    then show "\<exists>j\<le>length (c # cs). HasPrefix (drop j (c # cs)) sub"
    proof
      assume "HasPrefix (c # cs) sub"
      then have "0 \<le> length (c # cs) \<and> HasPrefix (drop 0 (c # cs)) sub" by simp
      then show ?thesis by blast
    next
      assume "\<exists>j\<le>length cs. HasPrefix (drop j cs) sub"
      then obtain j where "j \<le> length cs" "HasPrefix (drop j cs) sub" by blast
      then have "Suc j \<le> length (c # cs) \<and> HasPrefix (drop (Suc j) (c # cs)) sub" by simp
      then show ?thesis by blast
    qed
  qed
  show ?case
  proof (cases "\<exists>j\<le>length cs. HasPrefix (drop j cs) sub")
    case True
    with Cons.IH [of "i + 1" ?latest'] obtain j where j: "j \<le> length cs"
      "lastIndexFrom cs sub (i + 1) ?latest' = i + 1 + int j" "HasPrefix (drop j cs) sub"
      "\<forall>k. j < k \<and> k \<le> length cs \<longrightarrow> \<not> HasPrefix (drop k cs) sub"
      by auto
    have later: "\<forall>k. Suc j < k \<and> k \<le> length (c # cs) \<longrightarrow> \<not> HasPrefix (drop k (c # cs)) sub"
    proof (intro allI impI)
      fix k assume k: "Suc j < k \<and> k \<le> length (c # cs)"
      then obtain k' where k': "k = Suc k'" by (cases k) auto
      with k j(4) show "\<not> HasPrefix (drop k (c # cs)) sub" by simp
    qed
    have "Suc j \<le> length (c # cs) \<and>
          lastIndexFrom (c # cs) sub i latest = i + int (Suc j) \<and>
          HasPrefix (drop (Suc j) (c # cs)) sub"
      using j step by simp
    with later have "\<exists>j\<le>length (c # cs). lastIndexFrom (c # cs) sub i latest = i + int j \<and>
        HasPrefix (drop j (c # cs)) sub \<and>
        (\<forall>k. j < k \<and> k \<le> length (c # cs) \<longrightarrow> \<not> HasPrefix (drop k (c # cs)) sub)"
      by blast
    moreover from True split have "\<exists>j\<le>length (c # cs). HasPrefix (drop j (c # cs)) sub"
      by blast
    ultimately show ?thesis by (simp only: if_True)
  next
    case False
    with Cons.IH [of "i + 1" ?latest']
    have res: "lastIndexFrom (c # cs) sub i latest = ?latest'"
      using step by simp
    show ?thesis
    proof (cases "HasPrefix (c # cs) sub")
      case hp: True
      have later: "\<forall>k. 0 < k \<and> k \<le> length (c # cs) \<longrightarrow> \<not> HasPrefix (drop k (c # cs)) sub"
      proof (intro allI impI)
        fix k assume k: "0 < k \<and> k \<le> length (c # cs)"
        then obtain k' where k': "k = Suc k'" by (cases k) auto
        with k False show "\<not> HasPrefix (drop k (c # cs)) sub" by auto
      qed
      have "0 \<le> length (c # cs) \<and> lastIndexFrom (c # cs) sub i latest = i + int 0 \<and>
            HasPrefix (drop 0 (c # cs)) sub"
        using hp res by simp
      with later have "\<exists>j\<le>length (c # cs). lastIndexFrom (c # cs) sub i latest = i + int j \<and>
        HasPrefix (drop j (c # cs)) sub \<and>
        (\<forall>k. j < k \<and> k \<le> length (c # cs) \<longrightarrow> \<not> HasPrefix (drop k (c # cs)) sub)"
        by blast
      moreover from hp split have "\<exists>j\<le>length (c # cs). HasPrefix (drop j (c # cs)) sub"
        by blast
      ultimately show ?thesis by (simp only: if_True)
    next
      case nhp: False
      with False split have "\<not> (\<exists>j\<le>length (c # cs). HasPrefix (drop j (c # cs)) sub)"
        by blast
      moreover from nhp res have "lastIndexFrom (c # cs) sub i latest = latest" by simp
      ultimately show ?thesis by (simp only: if_False)
    qed
  qed
qed

text \<open>\<open>LastIndex\<close> is \<open>-1\<close> exactly when \<open>sub\<close> starts nowhere in \<open>s\<close>.\<close>

lemma LastIndex_absent:
  "LastIndex s sub = - 1 \<longleftrightarrow> (\<forall>j\<le>length s. \<not> HasPrefix (drop j s) sub)"
  using lastIndexFrom_spec [of s sub 0 "- 1"] unfolding LastIndex_def
  by (auto split: if_splits)

text \<open>Otherwise it is the largest index at which \<open>sub\<close> starts.\<close>

lemma LastIndex_last:
  assumes "j \<le> length s" and "HasPrefix (drop j s) sub"
  shows "\<exists>m\<le>length s. LastIndex s sub = int m \<and> j \<le> m \<and> HasPrefix (drop m s) sub \<and>
           (\<forall>k. m < k \<and> k \<le> length s \<longrightarrow> \<not> HasPrefix (drop k s) sub)"
proof -
  from assms have ex: "\<exists>j\<le>length s. HasPrefix (drop j s) sub" by blast
  with lastIndexFrom_spec [of s sub 0 "- 1"]
  obtain m where m: "m \<le> length s" "LastIndex s sub = int m" "HasPrefix (drop m s) sub"
    "\<forall>k. m < k \<and> k \<le> length s \<longrightarrow> \<not> HasPrefix (drop k s) sub"
    unfolding LastIndex_def by auto
  have "j \<le> m"
  proof (rule ccontr)
    assume "\<not> j \<le> m"
    with m(4) assms show False by auto
  qed
  with m show ?thesis by blast
qed

lemma LastIndex_range: "- 1 \<le> LastIndex s sub \<and> LastIndex s sub \<le> int (length s)"
  using lastIndexFrom_spec [of s sub 0 "- 1"] unfolding LastIndex_def
  by (auto split: if_splits)

subsection \<open>One line\<close>

text \<open>
  C3. A line that is empty after trimming adds one to \<open>blanks\<close> (and to \<open>lines\<close>) and
  leaves the state and the other counters as they are, in each of the three states and
  for every language rule.
\<close>

theorem blank_line_counts_as_blank:
  "TrimSpace line_orig = [] \<Longrightarrow>
   scan_line st file line_orig =
     (st, file\<lparr>lines := lines file + 1, blanks := blanks file + 1\<rparr>)"
  by (simp add: scan_line_def Let_def)

theorem blank_line_counts_as_blank_witness:
  "scan_line BLOCK goFile [CHR 0x20, CHR 0x09] =
     (BLOCK, goFile\<lparr>lines := lines goFile + 1, blanks := blanks goFile + 1\<rparr>) \<and>
   scan_line END perlFile [] =
     (END, perlFile\<lparr>lines := lines perlFile + 1, blanks := blanks perlFile + 1\<rparr>)"
proof -
  have h1: "TrimSpace [CHR 0x20, CHR 0x09] = []" by code_simp
  have h2: "TrimSpace [] = []" by code_simp
  show ?thesis
    using blank_line_counts_as_blank [OF h1, of BLOCK goFile]
      blank_line_counts_as_blank [OF h2, of END perlFile]
    by simp
qed

text \<open>
  C4. State NORMAL, both block markers non-empty, a non-blank trimmed line that is neither a
  line comment nor the end marker; \<open>spos\<close> and \<open>epos\<close> are the last indices of the open and
  of the close marker. If \<open>spos > epos\<close> and \<open>spos > 1\<close> the line is code and the state becomes
  BLOCK; if \<open>spos > epos\<close> and \<open>spos \<le> 1\<close> the line is a comment and the state becomes
  BLOCK; if \<open>spos < epos\<close> and \<open>spos > -1\<close> the line is a comment and the state stays NORMAL.
\<close>

theorem normal_block_markers:
  assumes "line = TrimSpace line_orig" and "line \<noteq> []"
    and "openblock (lang file) \<noteq> []" and "closeblock (lang file) \<noteq> []"
    and "\<not> (HasPrefix line (comment (lang file)) \<and> comment (lang file) \<noteq> [])"
    and "\<not> (HasPrefix line (endmark (lang file)) \<and> endmark (lang file) \<noteq> [])"
    and "spos = LastIndex line (openblock (lang file))"
    and "epos = LastIndex line (closeblock (lang file))"
  shows "(spos > epos \<and> spos > 1 \<longrightarrow>
           scan_line NORMAL file line_orig =
             (BLOCK, file\<lparr>lines := lines file + 1, code := code file + 1\<rparr>)) \<and>
         (spos > epos \<and> spos \<le> 1 \<longrightarrow>
           scan_line NORMAL file line_orig =
             (BLOCK, file\<lparr>lines := lines file + 1, comments := comments file + 1\<rparr>)) \<and>
         (spos < epos \<and> spos > - 1 \<longrightarrow>
           scan_line NORMAL file line_orig =
             (NORMAL, file\<lparr>lines := lines file + 1, comments := comments file + 1\<rparr>))"
  using assms by (auto simp: scan_line_def Let_def)

theorem normal_block_markers_witness:
  "scan_line NORMAL goFile ''x := 1 /* open'' =
     (BLOCK, goFile\<lparr>lines := lines goFile + 1, code := code goFile + 1\<rparr>) \<and>
   scan_line NORMAL goFile '' /* open'' =
     (BLOCK, goFile\<lparr>lines := lines goFile + 1, comments := comments goFile + 1\<rparr>) \<and>
   scan_line NORMAL goFile ''x := 1 /* done */ y := 2'' =
     (NORMAL, goFile\<lparr>lines := lines goFile + 1, comments := comments goFile + 1\<rparr>)"
proof -
  have ob: "openblock (lang goFile) \<noteq> []" and cb: "closeblock (lang goFile) \<noteq> []"
    by code_simp+
  have a: "TrimSpace ''x := 1 /* open'' \<noteq> []"
    "\<not> (HasPrefix (TrimSpace ''x := 1 /* open'') (comment (lang goFile)) \<and> comment (lang goFile) \<noteq> [])"
    "\<not> (HasPrefix (TrimSpace ''x := 1 /* open'') (endmark (lang goFile)) \<and> endmark (lang goFile) \<noteq> [])"
    "LastIndex (TrimSpace ''x := 1 /* open'') (openblock (lang goFile)) = 7"
    "LastIndex (TrimSpace ''x := 1 /* open'') (closeblock (lang goFile)) = - 1"
    by code_simp+
  have b: "TrimSpace '' /* open'' \<noteq> []"
    "\<not> (HasPrefix (TrimSpace '' /* open'') (comment (lang goFile)) \<and> comment (lang goFile) \<noteq> [])"
    "\<not> (HasPrefix (TrimSpace '' /* open'') (endmark (lang goFile)) \<and> endmark (lang goFile) \<noteq> [])"
    "LastIndex (TrimSpace '' /* open'') (openblock (lang goFile)) = 0"
    "LastIndex (TrimSpace '' /* open'') (closeblock (lang goFile)) = - 1"
    by code_simp+
  have c: "TrimSpace ''x := 1 /* done */ y := 2'' \<noteq> []"
    "\<not> (HasPrefix (TrimSpace ''x := 1 /* done */ y := 2'') (comment (lang goFile)) \<and> comment (lang goFile) \<noteq> [])"
    "\<not> (HasPrefix (TrimSpace ''x := 1 /* done */ y := 2'') (endmark (lang goFile)) \<and> endmark (lang goFile) \<noteq> [])"
    "LastIndex (TrimSpace ''x := 1 /* done */ y := 2'') (openblock (lang goFile)) = 7"
    "LastIndex (TrimSpace ''x := 1 /* done */ y := 2'') (closeblock (lang goFile)) = 15"
    by code_simp+
  show ?thesis
    using normal_block_markers [OF refl a(1) ob cb a(2) a(3) a(4) [symmetric] a(5) [symmetric]]
      normal_block_markers [OF refl b(1) ob cb b(2) b(3) b(4) [symmetric] b(5) [symmetric]]
      normal_block_markers [OF refl c(1) ob cb c(2) c(3) c(4) [symmetric] c(5) [symmetric]]
    by simp
qed

text \<open>
  C5. State BLOCK: a non-blank line is a comment, never code; the state after it is NORMAL
  exactly when \<open>spos < epos\<close> and \<open>epos \<noteq> -1\<close> for the last indices \<open>spos\<close> and \<open>epos\<close> of the
  open and of the close marker, and BLOCK otherwise. So the line that closes the block is
  a comment whatever follows the close marker.
\<close>

theorem block_line_counts_as_comment:
  assumes "line = TrimSpace line_orig" and "line \<noteq> []"
    and "spos = LastIndex line (openblock (lang file))"
    and "epos = LastIndex line (closeblock (lang file))"
  shows "scan_line BLOCK file line_orig =
           (if spos < epos \<and> epos \<noteq> - 1 then NORMAL else BLOCK,
            file\<lparr>lines := lines file + 1, comments := comments file + 1\<rparr>)"
  using assms by (simp add: scan_line_def Let_def)

theorem block_line_counts_as_comment_witness:
  "scan_line BLOCK goFile ''end of it */ x := 1'' =
     (NORMAL, goFile\<lparr>lines := lines goFile + 1, comments := comments goFile + 1\<rparr>) \<and>
   scan_line BLOCK goFile ''still inside'' =
     (BLOCK, goFile\<lparr>lines := lines goFile + 1, comments := comments goFile + 1\<rparr>) \<and>
   scan_line BLOCK goFile ''closed */ and /* opened again'' =
     (BLOCK, goFile\<lparr>lines := lines goFile + 1, comments := comments goFile + 1\<rparr>)"
proof -
  have a: "TrimSpace ''end of it */ x := 1'' \<noteq> []"
    "LastIndex (TrimSpace ''end of it */ x := 1'') (openblock (lang goFile)) = - 1"
    "LastIndex (TrimSpace ''end of it */ x := 1'') (closeblock (lang goFile)) = 10"
    by code_simp+
  have b: "TrimSpace ''still inside'' \<noteq> []"
    "LastIndex (TrimSpace ''still inside'') (openblock (lang goFile)) = - 1"
    "LastIndex (TrimSpace ''still inside'') (closeblock (lang goFile)) = - 1"
    by code_simp+
  have c: "TrimSpace ''closed */ and /* opened again'' \<noteq> []"
    "LastIndex (TrimSpace ''closed */ and /* opened again'') (openblock (lang goFile)) = 14"
    "LastIndex (TrimSpace ''closed */ and /* opened again'') (closeblock (lang goFile)) = 7"
    by code_simp+
  show ?thesis
    using block_line_counts_as_comment [OF refl a(1) a(2) [symmetric] a(3) [symmetric]]
      block_line_counts_as_comment [OF refl b(1) b(2) [symmetric] b(3) [symmetric]]
      block_line_counts_as_comment [OF refl c(1) c(2) [symmetric] c(3) [symmetric]]
    by simp
qed

subsection \<open>The loop\<close>

lemma deliver_simps [simp]:
  "deliver [] = []" "deliver (l # ls) = (None, l) # deliver ls"
  "deliver (xs @ ys) = deliver xs @ deliver ys"
  by (simp_all add: deliver_def)

lemma scan_loop_append:
  "scan_loop st file (xs @ ys) =
     (case scan_loop st file xs of
        Inl e \<Rightarrow> Inl e
      | Inr (st', file') \<Rightarrow> scan_loop st' file' ys)"
proof (induction xs arbitrary: st "file")
  case Nil
  show ?case by simp
next
  case (Cons x xs)
  obtain err l where x: "x = (err, l)" by (cases x)
  show ?case
  proof (cases err)
    case None
    obtain st1 file1 where s: "scan_line st file l = (st1, file1)"
      by (cases "scan_line st file l")
    with None x Cons.IH [of st1 file1] show ?thesis by simp
  next
    case (Some e)
    with x show ?thesis by simp
  qed
qed

text \<open>The rule of the file is never changed by the loop.\<close>

lemma scan_line_lang: "scan_line st file l = (st', file') \<Longrightarrow> lang file' = lang file"
  by (auto simp: scan_line_def Let_def split: if_splits state.splits)

text \<open>Every line adds one to \<open>lines\<close> and one to exactly one of the three other counters.\<close>

lemma scan_line_counts:
  "scan_line st file l = (st', file') \<Longrightarrow>
   lines file' = lines file + 1 \<and>
   code file' + comments file' + blanks file' = code file + comments file + blanks file + 1"
  by (auto simp: scan_line_def Let_def split: if_splits state.splits)

lemma scan_loop_counts:
  "scan_loop st file sc = Inr (st', file') \<Longrightarrow>
   lines file' - (code file' + comments file' + blanks file') =
   lines file - (code file + comments file + blanks file)"
proof (induction sc arbitrary: st "file")
  case Nil
  then show ?case by simp
next
  case (Cons x sc)
  obtain err l where x: "x = (err, l)" by (cases x)
  from Cons.prems x have err: "err = None" by (cases err) auto
  obtain st1 file1 where s: "scan_line st file l = (st1, file1)"
    by (cases "scan_line st file l")
  with Cons.prems x err have "scan_loop st1 file1 sc = Inr (st', file')" by simp
  from Cons.IH [OF this] scan_line_counts [OF s] show ?case by simp
qed

text \<open>A scanner without read errors is read to its end.\<close>

lemma scan_loop_deliver: "\<exists>st' file'. scan_loop st file (deliver ls) = Inr (st', file')"
proof (induction ls arbitrary: st "file")
  case Nil
  show ?case by simp
next
  case (Cons l ls)
  obtain st1 file1 where s: "scan_line st file l = (st1, file1)"
    by (cases "scan_line st file l")
  with Cons.IH [of st1 file1] show ?case by simp
qed

text \<open>A read error ends the loop with a panic, whatever follows it.\<close>

lemma scan_loop_read_error:
  "scan_loop st file (deliver ls @ (Some e, l) # rest) = Inl e"
proof -
  obtain st' file' where "scan_loop st file (deliver ls) = Inr (st', file')"
    using scan_loop_deliver by blast
  then show ?thesis by (simp add: scan_loop_append)
qed

lemma scan_line_END:
  "scan_line END file l =
     (END, if nonblank l then file\<lparr>lines := lines file + 1, comments := comments file + 1\<rparr>
           else file\<lparr>lines := lines file + 1, blanks := blanks file + 1\<rparr>)"
  by (simp add: scan_line_def Let_def nonblank_def)

lemma scan_loop_END:
  "\<exists>file'. scan_loop END file (deliver ls) = Inr (END, file') \<and>
     comments file' = comments file + int (length (filter nonblank ls)) \<and>
     code file' = code file \<and>
     blanks file' = blanks file + int (length (filter (\<lambda>l. \<not> nonblank l) ls)) \<and>
     lines file' = lines file + int (length ls)"
proof (induction ls arbitrary: "file")
  case Nil
  show ?case by simp
next
  case (Cons l ls)
  show ?case
  proof (cases "nonblank l")
    case True
    with Cons.IH [of "file\<lparr>lines := lines file + 1, comments := comments file + 1\<rparr>"]
    show ?thesis by (auto simp: scan_line_END)
  next
    case False
    with Cons.IH [of "file\<lparr>lines := lines file + 1, blanks := blanks file + 1\<rparr>"]
    show ?thesis by (auto simp: scan_line_END)
  qed
qed

lemma scan_line_no_markers:
  assumes "comment (lang file) = []" and "endmark (lang file) = []"
    and "openblock (lang file) = []" and "closeblock (lang file) = []"
  shows "scan_line NORMAL file l =
     (NORMAL, if nonblank l then file\<lparr>lines := lines file + 1, code := code file + 1\<rparr>
              else file\<lparr>lines := lines file + 1, blanks := blanks file + 1\<rparr>)"
  using assms by (simp add: scan_line_def Let_def nonblank_def)

lemma scan_loop_no_markers:
  assumes "comment (lang file) = []" and "endmark (lang file) = []"
    and "openblock (lang file) = []" and "closeblock (lang file) = []"
  shows "\<exists>file'. scan_loop NORMAL file (deliver ls) = Inr (NORMAL, file') \<and>
     code file' = code file + int (length (filter nonblank ls)) \<and>
     comments file' = comments file \<and>
     blanks file' = blanks file + int (length (filter (\<lambda>l. \<not> nonblank l) ls)) \<and>
     lines file' = lines file + int (length ls)"
  using assms
proof (induction ls arbitrary: "file")
  case Nil
  show ?case by simp
next
  case (Cons l ls)
  show ?case
  proof (cases "nonblank l")
    case True
    with Cons.IH [of "file\<lparr>lines := lines file + 1, code := code file + 1\<rparr>"] Cons.prems
    show ?thesis by (auto simp: scan_line_no_markers)
  next
    case False
    with Cons.IH [of "file\<lparr>lines := lines file + 1, blanks := blanks file + 1\<rparr>"] Cons.prems
    show ?thesis by (auto simp: scan_line_no_markers)
  qed
qed

text \<open>
  The state END is entered from NORMAL only, by a non-blank line that starts with the
  non-empty end marker of the rule.
\<close>

lemma END_entered_by_marker:
  assumes "scan_line st file l = (END, file')" and "st \<noteq> END"
  shows "st = NORMAL \<and> nonblank l \<and> endmark (lang file) \<noteq> [] \<and>
         HasPrefix (TrimSpace l) (endmark (lang file))"
  using assms
  by (auto simp: scan_line_def Let_def nonblank_def split: if_splits state.splits)

text \<open>
  C6. Once the state is END after some lines of a file, it is END after every further
  line, and each further non-blank line adds one to \<open>comments\<close> (none is counted as code).
\<close>

theorem end_state_is_terminal:
  assumes "scan_loop st file (deliver pre) = Inr (END, file1)"
  shows "\<exists>file2. scan_loop st file (deliver (pre @ ls)) = Inr (END, file2) \<and>
           comments file2 = comments file1 + int (length (filter nonblank ls)) \<and>
           code file2 = code file1"
proof -
  obtain file2 where "scan_loop END file1 (deliver ls) = Inr (END, file2)"
    "comments file2 = comments file1 + int (length (filter nonblank ls))"
    "code file2 = code file1"
    using scan_loop_END [of file1 ls] by blast
  with assms show ?thesis by (simp add: scan_loop_append)
qed

theorem end_state_is_terminal_witness:
  "\<exists>file2. scan_loop NORMAL perlFile
       (deliver ([''print 1;'', ''__END__''] @ [''not perl'', '''', ''print 2;''])) = Inr (END, file2) \<and>
     comments file2 = 3 \<and> code file2 = 1"
proof -
  have h: "scan_loop NORMAL perlFile (deliver [''print 1;'', ''__END__'']) =
             Inr (END, perlFile\<lparr>lines := 2, comments := 1, code := 1\<rparr>)"
    by code_simp
  have n: "int (length (filter nonblank [''not perl'', '''', ''print 2;''])) = 2"
    by code_simp
  show ?thesis
    using end_state_is_terminal [OF h, of "[''not perl'', '''', ''print 2;'']"] n
    by simp
qed

subsection \<open>One file\<close>

lemma newFile_sel [simp]:
  "path (newFile p i) = p" "info (newFile p i) = i" "lang (newFile p i) = zeroLanguage"
  "scanned (newFile p i) = False" "lines (newFile p i) = 0" "comments (newFile p i) = 0"
  "blanks (newFile p i) = 0" "code (newFile p i) = 0"
  by (simp_all add: newFile_def)

text \<open>What \<open>scan\<close> does with a fresh record once the rule is resolved and the file is not empty.\<close>

lemma scan_resolved:
  assumes "lookup exts (ToLower U (Ext p)) = L" and "name L \<noteq> []" and "Size fi \<noteq> 0"
  shows "scan exts U fs (newFile p (Some fi)) =
     (case fs p of
        Inl e \<Rightarrow> Inl e
      | Inr sc \<Rightarrow>
          (case scan_loop NORMAL ((newFile p (Some fi))\<lparr>lang := L\<rparr>) sc of
             Inl e \<Rightarrow> Inl e
           | Inr (st, file') \<Rightarrow> Inr (file'\<lparr>scanned := True\<rparr>)))"
  using assms by (simp add: scan_def Let_def)

lemma scan_counts:
  assumes "scan exts U fs file = Inr file'"
  shows "lines file' - (code file' + comments file' + blanks file') =
         lines file - (code file + comments file + blanks file)"
proof -
  let ?f = "file\<lparr>lang := lookup exts (ToLower U (Ext (path file)))\<rparr>"
  show ?thesis
  proof (cases "\<exists>sc st f1. fs (path file) = Inr sc \<and> scan_loop NORMAL ?f sc = Inr (st, f1) \<and>
      file' = f1\<lparr>scanned := True\<rparr>")
    case True
    then obtain sc st f1 where "scan_loop NORMAL ?f sc = Inr (st, f1)"
      and "file' = f1\<lparr>scanned := True\<rparr>" by blast
    with scan_loop_counts [of NORMAL ?f sc st f1] show ?thesis by simp
  next
    case False
    with assms have "file' = ?f\<lparr>scanned := False\<rparr>"
      by (auto simp: scan_def Let_def split: if_splits option.splits sum.splits prod.splits)
    then show ?thesis by simp
  qed
qed

text \<open>
  The regression test \<^verbatim>\<open>TestScanPHP\<close> of the repository expects 19 code lines, 27 lines,
  5 comment lines and 3 blank lines for its fixture; the model computes the same.
\<close>

lemma TestScanPHP:
  "scan extensions id (everyFile phpFixture)
     (newFile ''test_files/php.php'' (Some (regular ''php.php'' 588))) =
   Inr ((newFile ''test_files/php.php'' (Some (regular ''php.php'' 588)))
          \<lparr>lang := lookup extensions ''.php'', scanned := True,
           lines := 27, comments := 5, blanks := 3, code := 19\<rparr>)"
  by code_simp

text \<open>
  C1. A record that \<open>scan\<close> produces from a fresh \<^verbatim>\<open>File\<close> literal (as \<^verbatim>\<open>walkFunc\<close> and the
  test driver call it) with \<open>scanned\<close> set has \<open>lines = code + comments + blanks\<close>, whatever
  the table, the rule and the lines read.
\<close>

theorem lines_is_sum_of_counts:
  assumes "scan exts U fs (newFile p i) = Inr file'" and "scanned file'"
  shows "lines file' = code file' + comments file' + blanks file'"
  using scan_counts [OF assms(1)] by simp

theorem lines_is_sum_of_counts_witness:
  "scan extensions id
      (everyFile [''package main'', '''', ''/* entry'', ''point */ func main() {'', ''}''])
      (newFile ''main.go'' (Some (regular ''main.go'' 40))) =
     Inr (goFile\<lparr>info := Some (regular ''main.go'' 40), scanned := True,
        lines := 5, comments := 2, blanks := 1, code := 2\<rparr>) \<and>
   lines (goFile\<lparr>info := Some (regular ''main.go'' 40), scanned := True,
        lines := 5, comments := 2, blanks := 1, code := 2\<rparr>) =
     code (goFile\<lparr>info := Some (regular ''main.go'' 40), scanned := True,
        lines := 5, comments := 2, blanks := 1, code := 2\<rparr>) +
     comments (goFile\<lparr>info := Some (regular ''main.go'' 40), scanned := True,
        lines := 5, comments := 2, blanks := 1, code := 2\<rparr>) +
     blanks (goFile\<lparr>info := Some (regular ''main.go'' 40), scanned := True,
        lines := 5, comments := 2, blanks := 1, code := 2\<rparr>)"
proof -
  have h: "scan extensions id
      (everyFile [''package main'', '''', ''/* entry'', ''point */ func main() {'', ''}''])
      (newFile ''main.go'' (Some (regular ''main.go'' 40))) =
     Inr (goFile\<lparr>info := Some (regular ''main.go'' 40), scanned := True,
        lines := 5, comments := 2, blanks := 1, code := 2\<rparr>)"
    by code_simp
  have s: "scanned (goFile\<lparr>info := Some (regular ''main.go'' 40), scanned := True,
        lines := 5, comments := 2, blanks := 1, code := 2\<rparr>)"
    by simp
  show ?thesis using h lines_is_sum_of_counts [OF h s] by (simp only: simp_thms)
qed

text \<open>
  C8. For a file whose (lower-cased) extension is not in the table, and for a file of size
  zero, \<open>scan\<close> returns the fresh record with the looked-up rule, \<open>scanned = false\<close> and all
  four counters zero. The result is the same for every file system: the file is not
  opened and the loop over its lines is not run.
\<close>

theorem unknown_or_empty_not_scanned:
  assumes "exts (ToLower U (Ext p)) = None \<or> (\<exists>fi. i = Some fi \<and> Size fi = 0)"
  shows "scan exts U fs (newFile p i) =
           Inr ((newFile p i)\<lparr>lang := lookup exts (ToLower U (Ext p)), scanned := False\<rparr>) \<and>
         \<not> scanned ((newFile p i)\<lparr>lang := lookup exts (ToLower U (Ext p)), scanned := False\<rparr>) \<and>
         lines ((newFile p i)\<lparr>lang := lookup exts (ToLower U (Ext p)), scanned := False\<rparr>) = 0 \<and>
         code ((newFile p i)\<lparr>lang := lookup exts (ToLower U (Ext p)), scanned := False\<rparr>) = 0 \<and>
         comments ((newFile p i)\<lparr>lang := lookup exts (ToLower U (Ext p)), scanned := False\<rparr>) = 0 \<and>
         blanks ((newFile p i)\<lparr>lang := lookup exts (ToLower U (Ext p)), scanned := False\<rparr>) = 0"
  using assms
  by (auto simp: scan_def Let_def lookup_def zeroLanguage_def)

theorem unknown_or_empty_not_scanned_witness:
  "scan extensions id noFile (newFile ''doc/README'' (Some (regular ''README'' 120))) =
     Inr (newFile ''doc/README'' (Some (regular ''README'' 120))) \<and>
   scan extensions id noFile (newFile ''empty.go'' (Some (regular ''empty.go'' 0))) =
     Inr (goFile\<lparr>path := ''empty.go'', info := Some (regular ''empty.go'' 0)\<rparr>)"
proof -
  have "extensions (ToLower id (Ext ''doc/README'')) = None"
    by code_simp
  then have a: "extensions (ToLower id (Ext ''doc/README'')) = None \<or>
           (\<exists>fi. Some (regular ''README'' 120) = Some fi \<and> Size fi = 0)"
    by (rule disjI1)
  have b: "extensions (ToLower id (Ext ''empty.go'')) = None \<or>
           (\<exists>fi. Some (regular ''empty.go'' 0) = Some fi \<and> Size fi = 0)"
    by (simp add: regular_def)
  have c: "(newFile ''doc/README'' (Some (regular ''README'' 120)))
             \<lparr>lang := lookup extensions (ToLower id (Ext ''doc/README'')), scanned := False\<rparr> =
           newFile ''doc/README'' (Some (regular ''README'' 120))"
    by code_simp
  have d: "(newFile ''empty.go'' (Some (regular ''empty.go'' 0)))
             \<lparr>lang := lookup extensions (ToLower id (Ext ''empty.go'')), scanned := False\<rparr> =
           goFile\<lparr>path := ''empty.go'', info := Some (regular ''empty.go'' 0)\<rparr>"
    by code_simp
  show ?thesis
    using
      unknown_or_empty_not_scanned [where exts = extensions and U = id and fs = noFile
        and p = "''doc/README''" and i = "Some (regular ''README'' 120)", OF a]
      unknown_or_empty_not_scanned [where exts = extensions and U = id and fs = noFile
        and p = "''empty.go''" and i = "Some (regular ''empty.go'' 0)", OF b]
      c d
    by simp
qed

text \<open>
  C10. A rule without any marker (HTML, JSON, Markdown, Text, ... in the shipped table):
  a file that is read without error is scanned, each of its non-blank lines is counted as
  code, no line is counted as a comment, and the state is NORMAL after every line.
\<close>

theorem no_markers_all_code:
  assumes "lookup exts (ToLower U (Ext p)) = L" and "name L \<noteq> []" and "Size fi \<noteq> 0"
    and "comment L = []" and "endmark L = []" and "openblock L = []" and "closeblock L = []"
    and "fs p = Inr (deliver ls)"
  shows "\<exists>file'. scan exts U fs (newFile p (Some fi)) = Inr file' \<and> scanned file' \<and>
           code file' = int (length (filter nonblank ls)) \<and> comments file' = 0 \<and>
           (\<forall>n. \<exists>f1. scan_loop NORMAL ((newFile p (Some fi))\<lparr>lang := L\<rparr>)
                         (deliver (take n ls)) = Inr (NORMAL, f1))"
proof -
  let ?f0 = "(newFile p (Some fi))\<lparr>lang := L\<rparr>"
  have m: "comment (lang ?f0) = []" "endmark (lang ?f0) = []"
    "openblock (lang ?f0) = []" "closeblock (lang ?f0) = []"
    using assms(4-7) by simp_all
  obtain f1 where f1: "scan_loop NORMAL ?f0 (deliver ls) = Inr (NORMAL, f1)"
    "code f1 = code ?f0 + int (length (filter nonblank ls))" "comments f1 = comments ?f0"
    using scan_loop_no_markers [OF m, of ls] by blast
  have "scan exts U fs (newFile p (Some fi)) = Inr (f1\<lparr>scanned := True\<rparr>)"
    using scan_resolved [OF assms(1-3), of fs] assms(8) f1(1) by simp
  moreover have "\<forall>n. \<exists>f2. scan_loop NORMAL ?f0 (deliver (take n ls)) = Inr (NORMAL, f2)"
    using scan_loop_no_markers [OF m] by blast
  ultimately show ?thesis using f1(2,3) by simp
qed

theorem no_markers_all_code_witness:
  "\<exists>file'. scan extensions id
       (everyFile [''# title'', '''', ''/* not a comment */'', ''__END__'', ''// text''])
       (newFile ''notes.txt'' (Some (regular ''notes.txt'' 50))) = Inr file' \<and>
     scanned file' \<and> code file' = 4 \<and> comments file' = 0"
proof -
  have h: "name (lookup extensions (ToLower id (Ext ''notes.txt''))) \<noteq> []"
    "Size (regular ''notes.txt'' 50) \<noteq> 0"
    "comment (lookup extensions (ToLower id (Ext ''notes.txt''))) = []"
    "endmark (lookup extensions (ToLower id (Ext ''notes.txt''))) = []"
    "openblock (lookup extensions (ToLower id (Ext ''notes.txt''))) = []"
    "closeblock (lookup extensions (ToLower id (Ext ''notes.txt''))) = []"
    by code_simp+
  have fs: "everyFile [''# title'', '''', ''/* not a comment */'', ''__END__'', ''// text'']
      ''notes.txt'' =
    Inr (deliver [''# title'', '''', ''/* not a comment */'', ''__END__'', ''// text''])"
    by (simp add: everyFile_def)
  have n: "int (length (filter nonblank
      [''# title'', '''', ''/* not a comment */'', ''__END__'', ''// text''])) = 4"
    by code_simp
  show ?thesis
    using no_markers_all_code [where exts = extensions and U = id and p = "''notes.txt''"
        and fs = "everyFile [''# title'', '''', ''/* not a comment */'', ''__END__'', ''// text'']",
        OF refl h fs] n
    by auto
qed

text \<open>
  A rule whose non-empty end marker has no white space at either end and does not start
  with the rule's line-comment marker: the end marker as first line takes the scanner to
  END, and the five non-blank lines after it are comments.
\<close>

lemma end_marker_then_comments:
  assumes "lookup exts (ToLower U (Ext p)) = L" and "name L \<noteq> []" and "Size fi \<noteq> 0"
    and "endmark L \<noteq> []" and "TrimSpace (endmark L) = endmark L"
    and "\<not> (HasPrefix (endmark L) (comment L) \<and> comment L \<noteq> [])"
    and "fs p = Inr (deliver (endmark L # ls))"
    and "length ls = 5" and "list_all nonblank ls"
  shows "\<exists>file'. scan exts U fs (newFile p (Some fi)) = Inr file' \<and> scanned file' \<and>
           comments file' = 6 \<and> code file' = 0 \<and> blanks file' = 0 \<and> lines file' = 6"
proof -
  let ?f0 = "(newFile p (Some fi))\<lparr>lang := L\<rparr>"
  let ?f1 = "?f0\<lparr>lines := 1, comments := 1\<rparr>"
  have first: "scan_line NORMAL ?f0 (endmark L) = (END, ?f1)"
    using assms(4-6) by (simp add: scan_line_def Let_def HasPrefix_def)
  from assms(9) have all: "filter nonblank ls = ls" "filter (\<lambda>l. \<not> nonblank l) ls = []"
    by (simp_all add: list_all_iff)
  obtain f2 where f2: "scan_loop END ?f1 (deliver ls) = Inr (END, f2)"
    "comments f2 = comments ?f1 + int (length (filter nonblank ls))"
    "code f2 = code ?f1"
    "blanks f2 = blanks ?f1 + int (length (filter (\<lambda>l. \<not> nonblank l) ls))"
    "lines f2 = lines ?f1 + int (length ls)"
    using scan_loop_END [of ?f1 ls] by blast
  have "scan exts U fs (newFile p (Some fi)) = Inr (f2\<lparr>scanned := True\<rparr>)"
    using scan_resolved [OF assms(1-3), of fs] assms(7) first f2(1) by simp
  then show ?thesis using f2(2-5) all assms(8) by simp
qed

text \<open>Every value of the extension table is a rule of the list it was built from.\<close>

lemma add_extensions_range:
  "foldl (\<lambda>m ext. m(ext \<mapsto> l)) m es k = Some L \<Longrightarrow> m k = Some L \<or> L = l"
proof (induction es arbitrary: m)
  case Nil
  then show ?case by simp
next
  case (Cons e es)
  from Cons.prems have "foldl (\<lambda>m ext. m(ext \<mapsto> l)) (m(e \<mapsto> l)) es k = Some L"
    by (simp only: foldl_Cons)
  from Cons.IH [OF this] show ?case
    by (auto split: if_splits)
qed

lemma add_languages_range:
  "foldl (\<lambda>ext_set l. foldl (\<lambda>m ext. m(ext \<mapsto> l)) ext_set (extension l)) m langs k = Some L
   \<Longrightarrow> m k = Some L \<or> L \<in> set langs"
proof (induction langs arbitrary: m)
  case Nil
  then show ?case by simp
next
  case (Cons l langs)
  from Cons.prems
  have "foldl (\<lambda>ext_set l. foldl (\<lambda>m ext. m(ext \<mapsto> l)) ext_set (extension l))
          (foldl (\<lambda>m ext. m(ext \<mapsto> l)) m (extension l)) langs k = Some L"
    by (simp only: foldl_Cons)
  from Cons.IH [OF this]
  have "foldl (\<lambda>m ext. m(ext \<mapsto> l)) m (extension l) k = Some L \<or> L \<in> set langs" .
  then show ?case
  proof
    assume "foldl (\<lambda>m ext. m(ext \<mapsto> l)) m (extension l) k = Some L"
    from add_extensions_range [OF this] show ?thesis by auto
  next
    assume "L \<in> set langs"
    then show ?thesis by simp
  qed
qed

lemma lookup_extensions_rule:
  "lookup extensions k = zeroLanguage \<or> lookup extensions k \<in> set languages"
proof (cases "extensions k")
  case None
  then show ?thesis by (simp add: lookup_def)
next
  case (Some L)
  then have "L \<in> set languages"
    using add_languages_range [of Map.empty languages k L]
    by (simp add: extensions_def build_extensions_def)
  with Some show ?thesis by (simp add: lookup_def)
qed

text \<open>
  The rules of the table that have an end marker (Perl, PHP, Ruby): each has a name, an end
  marker without white space at either end, and a line-comment marker that the end marker
  does not start with; and each of their extensions resolves to the rule.
\<close>

lemma shipped_end_markers:
  "list_all (\<lambda>L. endmark L = [] \<or>
      (name L \<noteq> [] \<and> TrimSpace (endmark L) = endmark L \<and>
       \<not> (HasPrefix (endmark L) (comment L) \<and> comment L \<noteq> []))) languages"
  by code_simp

lemma shipped_end_markers_resolved:
  "list_all (\<lambda>L. endmark L = [] \<or> list_all (\<lambda>ext. lookup extensions ext = L) (extension L))
     languages"
  by code_simp

text \<open>
  C9. For every rule of the program's table with a non-empty end marker: scanning a file
  whose first line is exactly the end marker, followed by five non-blank lines, gives
  \<open>comments = 6\<close>, \<open>code = 0\<close>, \<open>blanks = 0\<close>, \<open>lines = 6\<close>.
\<close>

theorem end_marker_first_line:
  assumes "lookup extensions (ToLower U (Ext p)) = L" and "endmark L \<noteq> []"
    and "Size fi \<noteq> 0"
    and "fs p = Inr (deliver (endmark L # ls))"
    and "length ls = 5" and "list_all nonblank ls"
  shows "\<exists>file'. scan extensions U fs (newFile p (Some fi)) = Inr file' \<and> scanned file' \<and>
           comments file' = 6 \<and> code file' = 0 \<and> blanks file' = 0 \<and> lines file' = 6"
proof -
  from lookup_extensions_rule [of "ToLower U (Ext p)"] assms(1,2)
  have "L \<in> set languages" by (auto simp: zeroLanguage_def)
  with shipped_end_markers assms(2)
  have L: "name L \<noteq> []" "TrimSpace (endmark L) = endmark L"
    "\<not> (HasPrefix (endmark L) (comment L) \<and> comment L \<noteq> [])"
    by (auto simp: list_all_iff)
  show ?thesis
    by (rule end_marker_then_comments [where exts = extensions and U = U and p = p
          and fs = fs and L = L and fi = fi and ls = ls,
          OF assms(1) L(1) assms(3) assms(2) L(2) L(3) assms(4-6)])
qed

theorem end_marker_first_line_witness:
  "\<exists>file'. scan extensions id
       (everyFile [''__END__'', ''=head1 NAME'', ''tool'', ''=cut'', ''print 1;'', ''x''])
       (newFile ''tool.pl'' (Some (regular ''tool.pl'' 60))) = Inr file' \<and> scanned file' \<and>
     comments file' = 6 \<and> code file' = 0 \<and> blanks file' = 0 \<and> lines file' = 6"
proof -
  have e: "endmark (lookup extensions (ToLower id (Ext ''tool.pl''))) = ''__END__''"
    by code_simp
  have h: "endmark (lookup extensions (ToLower id (Ext ''tool.pl''))) \<noteq> []"
    "Size (regular ''tool.pl'' 60) \<noteq> 0"
    by code_simp+
  have fs: "everyFile [''__END__'', ''=head1 NAME'', ''tool'', ''=cut'', ''print 1;'', ''x'']
      ''tool.pl'' =
    Inr (deliver (endmark (lookup extensions (ToLower id (Ext ''tool.pl''))) #
                  [''=head1 NAME'', ''tool'', ''=cut'', ''print 1;'', ''x'']))"
    by (simp add: everyFile_def e)
  have l: "length [''=head1 NAME'', ''tool'', ''=cut'', ''print 1;'', ''x''] = 5"
    by simp
  have nb: "list_all nonblank [''=head1 NAME'', ''tool'', ''=cut'', ''print 1;'', ''x'']"
    by code_simp
  show ?thesis
    using end_marker_first_line [where U = id and p = "''tool.pl''"
        and fs = "everyFile [''__END__'', ''=head1 NAME'', ''tool'', ''=cut'', ''print 1;'', ''x'']",
        OF refl h fs l nb]
    by simp
qed

subsection \<open>The walk\<close>

text \<open>
  C2, as the code has it. For a regular file that passes the extension test of
  \<^verbatim>\<open>walkFunc\<close>, has a resolved rule and is not empty: when \<^verbatim>\<open>os.Open\<close> fails, or when the
  scanner reports an error with a line it delivers, \<open>scan\<close> panics with that error. No
  record is produced for the file, and the panic ends the walk: the entries after the
  file are not visited.
\<close>

theorem io_error_panics:
  assumes "IsDir fi = False" and "found exts (Ext p)"
    and "lookup exts (ToLower U (Ext p)) = L" and "name L \<noteq> []" and "Size fi \<noteq> 0"
    and "fs p = Inl e \<or> fs p = Inr (deliver ls @ (Some e, l) # rest)"
  shows "scan exts U fs (newFile p (Some fi)) = Inl e \<and>
         Walk_entries exts U fs files (Entry p fi es # others) = Inl e"
proof -
  have s: "scan exts U fs (newFile p (Some fi)) = Inl e"
    using assms(6)
  proof
    assume "fs p = Inl e"
    then show ?thesis using scan_resolved [OF assms(3-5), of fs] by simp
  next
    assume "fs p = Inr (deliver ls @ (Some e, l) # rest)"
    then show ?thesis
      using scan_resolved [OF assms(3-5), of fs] by (simp add: scan_loop_read_error)
  qed
  then have "walkFunc exts U fs files p (Some fi) = Inl e"
    using assms(1,2) by (simp add: walkFunc_def)
  with s show ?thesis by simp
qed

theorem io_error_panics_witness:
  "scan extensions id brokenRead (newFile ''a.go'' (Some (regular ''a.go'' 20))) =
     Inl (ReadError ''a.go'') \<and>
   Walk_entries extensions id brokenRead []
     [Entry ''a.go'' (regular ''a.go'' 20) [], Entry ''notes.txt'' (regular ''notes.txt'' 5) []] =
     Inl (ReadError ''a.go'')"
proof -
  have h: "IsDir (regular ''a.go'' 20) = False" "found extensions (Ext ''a.go'')"
    "name (lookup extensions (ToLower id (Ext ''a.go''))) \<noteq> []"
    "Size (regular ''a.go'' 20) \<noteq> 0"
    by code_simp+
  have "brokenRead ''a.go'' =
      Inr (deliver [''package a''] @ (Some (ReadError ''a.go''), ''func'') # [])"
    by (simp add: brokenRead_def)
  then have fs: "brokenRead ''a.go'' = Inl (ReadError ''a.go'') \<or>
      brokenRead ''a.go'' =
      Inr (deliver [''package a''] @ (Some (ReadError ''a.go''), ''func'') # [])"
    by (rule disjI2)
  show ?thesis
    using io_error_panics [where exts = extensions and U = id and p = "''a.go''"
        and fs = brokenRead and files = "[]" and es = "[]"
        and others = "[Entry ''notes.txt'' (regular ''notes.txt'' 5) []]",
        OF h(1) h(2) refl h(3) h(4) fs]
    by simp
qed

text \<open>
  C2 as it is stated fails: with two files of which the first cannot be opened, the walk
  ends with the panic of the first, and no record is made, neither an unscanned one for
  the first file nor one for the second. Without the failure both files are recorded.
\<close>

theorem io_error_panics_counterexample:
  "Walk_entries extensions id (allBut ''a.go'' [''package b'']) []
     [Entry ''a.go'' (regular ''a.go'' 20) [], Entry ''b.go'' (regular ''b.go'' 10) []] =
     Inl (OpenError ''a.go'') \<and>
   Walk_entries extensions id (everyFile [''package b'']) []
     [Entry ''a.go'' (regular ''a.go'' 20) [], Entry ''b.go'' (regular ''b.go'' 10) []] =
     Inr [goFile\<lparr>path := ''a.go'', info := Some (regular ''a.go'' 20), scanned := True,
                 lines := 1, code := 1\<rparr>,
          goFile\<lparr>path := ''b.go'', info := Some (regular ''b.go'' 10), scanned := True,
                 lines := 1, code := 1\<rparr>]"
  by code_simp

text \<open>
  C7 on the failing input. \<open>scan\<close> lower-cases the extension before it reads the table,
  but \<^verbatim>\<open>walkFunc\<close> reads the table with the extension as it is in the path, and only then
  calls \<open>scan\<close>. A file \<open>MAIN.GO\<close> is therefore not scanned and not recorded by the walk,
  although \<open>scan\<close> called on it resolves the Go rule and scans it, as the walk does for
  \<open>main.go\<close>.
\<close>

theorem upper_case_extension_is_skipped:
  "walkFunc extensions id (everyFile [''package main'']) []
     ''MAIN.GO'' (Some (regular ''MAIN.GO'' 13)) = Inr (Continue, []) \<and>
   scan extensions id (everyFile [''package main''])
     (newFile ''MAIN.GO'' (Some (regular ''MAIN.GO'' 13))) =
     Inr (goFile\<lparr>path := ''MAIN.GO'', info := Some (regular ''MAIN.GO'' 13), scanned := True,
                 lines := 1, code := 1\<rparr>) \<and>
   walkFunc extensions id (everyFile [''package main'']) []
     ''main.go'' (Some (regular ''main.go'' 13)) =
     Inr (Continue, [goFile\<lparr>info := Some (regular ''main.go'' 13), scanned := True,
                 lines := 1, code := 1\<rparr>])"
  by code_simp

text \<open>
  The walk keeps the invariant of C1 in the list of records: every record it appends came
  from \<open>scan\<close> on a fresh record.
\<close>

lemma walkFunc_counts:
  assumes "walkFunc exts U fs files p i = Inr (r, files')"
    and "list_all counts_add_up files"
  shows "list_all counts_add_up files'"
proof (cases "\<exists>file. scan exts U fs (newFile p i) = Inr file \<and> files' = files @ [file]")
  case True
  then obtain f where f: "scan exts U fs (newFile p i) = Inr f" "files' = files @ [f]"
    by blast
  from scan_counts [OF f(1)] have "counts_add_up f" by (simp add: counts_add_up_def)
  with f(2) assms(2) show ?thesis by simp
next
  case False
  with assms(1) have "files' = files"
    by (auto simp: walkFunc_def split: option.splits if_splits sum.splits)
  with assms(2) show ?thesis by simp
qed

lemma Walk_counts:
  "Walk exts U fs files e = Inr files' \<Longrightarrow> list_all counts_add_up files \<Longrightarrow>
     list_all counts_add_up files'"
  "Walk_entries exts U fs files es = Inr files' \<Longrightarrow> list_all counts_add_up files \<Longrightarrow>
     list_all counts_add_up files'"
proof (induction exts U fs files e and exts U fs files es arbitrary: files' and files'
    rule: Walk_Walk_entries.induct)
  case (1 exts U fs files p fi es)
  from "1.prems"(1) obtain r files1 where
    w: "walkFunc exts U fs files p (Some fi) = Inr (r, files1)"
    by (auto split: sum.splits)
  from walkFunc_counts [OF w "1.prems"(2)] have ok1: "list_all counts_add_up files1" .
  show ?case
  proof (cases "IsDir fi \<and> r \<noteq> SkipDir")
    case True
    with "1.prems"(1) w have "Walk_entries exts U fs files1 es = Inr files'" by simp
    from "1.IH" [OF w refl _ _ this ok1] True show ?thesis by simp
  next
    case False
    with "1.prems"(1) w have "files' = files1" by (auto split: if_splits)
    with ok1 show ?thesis by simp
  qed
next
  case (2 exts U fs files)
  then show ?case by simp
next
  case (3 exts U fs files e es)
  from "3.prems"(1) obtain files1 where
    w: "Walk exts U fs files e = Inr files1" by (auto split: sum.splits)
  with "3.prems"(1) have rest: "Walk_entries exts U fs files1 es = Inr files'" by simp
  from "3.IH"(1) [OF w "3.prems"(2)] have "list_all counts_add_up files1" .
  from "3.IH"(2) [OF w rest this] show ?case .
qed

end
